theory Spec2Isabelle
  imports Main
begin

section \<open>JavaScript values as they reach the webhook handler\<close>

text \<open>
  The body of a webhook request is whatever the JSON body parser produced; the TypeScript
  types of \<^verbatim>\<open>types.ts\<close> are erased at run time, so the handler is modelled on
  arbitrary JSON values. \<open>Undefined\<close> is the result of reading a missing property. An
  object is its property table, looked up by name (first match). A number is observed by
  this code only through being zero or not, so integers stand for numbers.
\<close>

datatype jsval =
    Undefined
  | Null
  | JBool bool
  | JNum int
  | JStr string
  | JArr "jsval list"
  | JObj "(string \<times> jsval) list"

text \<open>
  What can be thrown inside the handler: a TypeError of the language, or the value the
  caller's handler rejected with.
\<close>

datatype js_error = TypeError | HandlerRejected jsval

text \<open>Truthiness, as \<^verbatim>\<open>if (x)\<close>, \<^verbatim>\<open>!x\<close>, \<^verbatim>\<open>x && y\<close> and \<^verbatim>\<open>x || y\<close> test it.\<close>

fun truthy :: "jsval \<Rightarrow> bool" where
  "truthy Undefined = False"
| "truthy Null = False"
| "truthy (JBool b) = b"
| "truthy (JNum n) = (n \<noteq> 0)"
| "truthy (JStr s) = (s \<noteq> [])"
| "truthy (JArr xs) = True"
| "truthy (JObj fs) = True"

text \<open>\<^verbatim>\<open>a || b\<close>: the left operand when it is truthy, the right one otherwise.\<close>

definition js_or :: "jsval \<Rightarrow> jsval \<Rightarrow> jsval" where
  "js_or a b = (if truthy a then a else b)"

text \<open>
  \<^verbatim>\<open>x?.name\<close> for the property names the handler reads (\<^verbatim>\<open>messaging\<close>,
  \<^verbatim>\<open>message\<close>, \<^verbatim>\<open>sender\<close>, \<^verbatim>\<open>id\<close>, \<^verbatim>\<open>text\<close>, \<^verbatim>\<open>changes\<close>,
  \<^verbatim>\<open>value\<close>, \<^verbatim>\<open>messages\<close>, \<^verbatim>\<open>from\<close>): none of them is a property of a
  string, an array, a number or a boolean, so only an object can hold one. Optional
  chaining gives \<^verbatim>\<open>undefined\<close> on \<^verbatim>\<open>null\<close> and \<^verbatim>\<open>undefined\<close>. Every plain
  \<^verbatim>\<open>x.name\<close> of the entry loop is applied to a value already tested truthy, where it
  agrees with \<^verbatim>\<open>x?.name\<close>.
\<close>

fun field :: "jsval \<Rightarrow> string \<Rightarrow> jsval" where
  "field (JObj fs) name = (case map_of fs name of None \<Rightarrow> Undefined | Some v \<Rightarrow> v)"
| "field v name = Undefined"

text \<open>
  \<^verbatim>\<open>x.name\<close> on a value that may be \<^verbatim>\<open>null\<close> or \<^verbatim>\<open>undefined\<close>
  (\<^verbatim>\<open>body.entry\<close>, line 57): a TypeError there.
\<close>

fun getprop :: "jsval \<Rightarrow> string \<Rightarrow> js_error + jsval" where
  "getprop Undefined name = Inl TypeError"
| "getprop Null name = Inl TypeError"
| "getprop v name = Inr (field v name)"

text \<open>
  \<^verbatim>\<open>x[0]\<close> and \<^verbatim>\<open>x?.[0]\<close>: the first element of an array, the first character of a
  string, the property \<^verbatim>\<open>"0"\<close> of an object, \<^verbatim>\<open>undefined\<close> otherwise (the plain
  form is applied to truthy values only).
\<close>

fun elem0 :: "jsval \<Rightarrow> jsval" where
  "elem0 (JArr xs) = (case xs of [] \<Rightarrow> Undefined | x # _ \<Rightarrow> x)"
| "elem0 (JStr s) = (case s of [] \<Rightarrow> Undefined | c # _ \<Rightarrow> JStr [c])"
| "elem0 (JObj fs) = field (JObj fs) ''0''"
| "elem0 v = Undefined"

text \<open>\<^verbatim>\<open>x.length\<close> on a truthy value.\<close>

fun js_length :: "jsval \<Rightarrow> jsval" where
  "js_length (JArr xs) = JNum (int (length xs))"
| "js_length (JStr s) = JNum (int (length s))"
| "js_length (JObj fs) = field (JObj fs) ''length''"
| "js_length v = Undefined"

text \<open>
  \<^verbatim>\<open>'name' in x\<close>: a TypeError unless \<open>x\<close> is an object (arrays included); an array
  has none of the two names asked for.
\<close>

fun js_in :: "string \<Rightarrow> jsval \<Rightarrow> js_error + bool" where
  "js_in name (JObj fs) = Inr (name \<in> set (map fst fs))"
| "js_in name (JArr xs) = Inr False"
| "js_in name v = Inl TypeError"

text \<open>
  \<^verbatim>\<open>for (const entry of x)\<close>: the elements of an array, the characters of a string,
  a TypeError on anything else (not iterable).
\<close>

fun js_iterate :: "jsval \<Rightarrow> js_error + jsval list" where
  "js_iterate (JArr xs) = Inr xs"
| "js_iterate (JStr s) = Inr (map (\<lambda>c. JStr [c]) s)"
| "js_iterate v = Inl TypeError"

text \<open>
  \<^verbatim>\<open>text.slice(0, 50)\<close> in the log call that precedes the handler: strings and arrays
  have the method; on any other truthy value the call is a TypeError.
\<close>

fun sliceable :: "jsval \<Rightarrow> bool" where
  "sliceable (JStr s) = True"
| "sliceable (JArr xs) = True"
| "sliceable v = False"

section \<open>webhookController.ts\<close>

datatype platform = messenger | instagram

text \<open>One call \<^verbatim>\<open>messageHandler(psid, text, platform)\<close>.\<close>

record handler_call =
  c_psid :: jsval
  c_text :: jsval
  c_platform :: platform

text \<open>
  The result of running a piece of the handler: the handler calls made, in order, and the
  error that ended it, if any. The caller's handler \<open>h\<close> tells, for each call, whether
  its promise resolved or rejected, and with what value.
\<close>

datatype handler_result = Resolved | Rejected jsval

type_synonym outcome = "handler_call list \<times> js_error option"

text \<open>A handler whose promise always resolves.\<close>

definition resolving :: "handler_call \<Rightarrow> handler_result" where
  "resolving c = Resolved"

text \<open>
  Lines 75-82 and 99-107: the log line, which slices the text, then the awaited call of
  the handler.
\<close>

definition call_handler :: "(handler_call \<Rightarrow> handler_result) \<Rightarrow> jsval \<Rightarrow> jsval \<Rightarrow> platform \<Rightarrow> outcome" where
  "call_handler h p t pf =
     (if \<not> sliceable t then ([], Some TypeError)
      else let c = \<lparr>c_psid = p, c_text = t, c_platform = pf\<rparr>
           in ([c], case h c of Resolved \<Rightarrow> None | Rejected v \<Rightarrow> Some (HandlerRejected v)))"

text \<open>Lines 69-84: the Messenger format.\<close>

definition handle_messenger :: "(handler_call \<Rightarrow> handler_result) \<Rightarrow> jsval \<Rightarrow> outcome" where
  "handle_messenger h entry =
     (case js_in ''messaging'' entry of
        Inl e \<Rightarrow> ([], Some e)
      | Inr present \<Rightarrow>
          if present \<and> truthy (field entry ''messaging'') then
            let messaging = elem0 (field entry ''messaging'') in
            if truthy (field messaging ''message'')
               \<and> truthy (field (field messaging ''sender'') ''id'')
            then call_handler h
                   (field (field messaging ''sender'') ''id'')
                   (js_or (field (field messaging ''message'') ''text'') (JStr ''''))
                   messenger
            else ([], None)
          else ([], None))"

text \<open>Line 93: the message object of the Instagram format, with its fallback.\<close>

definition igMessage :: "jsval \<Rightarrow> jsval" where
  "igMessage change =
     js_or (elem0 (field change ''messages''))
           (if truthy (field (field change ''from'') ''id'') then change else Null)"

text \<open>Line 97: the text of the resolved message.\<close>

definition igText :: "jsval \<Rightarrow> jsval" where
  "igText m = js_or (field m ''text'') (js_or (field (field m ''message'') ''text'') (JStr ''''))"

text \<open>Lines 87-109: the Instagram format.\<close>

definition handle_instagram :: "(handler_call \<Rightarrow> handler_result) \<Rightarrow> jsval \<Rightarrow> outcome" where
  "handle_instagram h entry =
     (case js_in ''changes'' entry of
        Inl e \<Rightarrow> ([], Some e)
      | Inr present \<Rightarrow>
          if present \<and> truthy (field entry ''changes'') then
            let change = field (elem0 (field entry ''changes'')) ''value'';
                m = igMessage change in
            if truthy (field (field m ''from'') ''id'')
            then call_handler h (field (field m ''from'') ''id'') (igText m) instagram
            else ([], None)
          else ([], None))"

text \<open>The body of the loop, lines 68-109: the two \<^verbatim>\<open>if\<close> statements in sequence.\<close>

definition process_entry :: "(handler_call \<Rightarrow> handler_result) \<Rightarrow> jsval \<Rightarrow> outcome" where
  "process_entry h entry =
     (case handle_messenger h entry of
        (cs, Some e) \<Rightarrow> (cs, Some e)
      | (cs, None) \<Rightarrow> (case handle_instagram h entry of (cs', r) \<Rightarrow> (cs @ cs', r)))"

text \<open>The loop of line 67: an error leaves it, and the entries after it are not read.\<close>

fun process_entries :: "(handler_call \<Rightarrow> handler_result) \<Rightarrow> jsval list \<Rightarrow> outcome" where
  "process_entries h [] = ([], None)"
| "process_entries h (e # es) =
     (case process_entry h e of
        (cs, Some err) \<Rightarrow> (cs, Some err)
      | (cs, None) \<Rightarrow> (case process_entries h es of (cs', r) \<Rightarrow> (cs @ cs', r)))"

text \<open>The \<^verbatim>\<open>try\<close> block of \<^verbatim>\<open>receiveWebhook\<close>, lines 52-110.\<close>

definition process_payload :: "(handler_call \<Rightarrow> handler_result) \<Rightarrow> jsval \<Rightarrow> outcome" where
  "process_payload h body =
     (case getprop body ''entry'' of
        Inl e \<Rightarrow> ([], Some e)
      | Inr ent \<Rightarrow>
          if \<not> truthy ent \<or> js_length ent = JNum 0 then ([], None)
          else (case js_iterate ent of
                  Inl e \<Rightarrow> ([], Some e)
                | Inr es \<Rightarrow> process_entries h es))"

text \<open>
  How \<^verbatim>\<open>receiveWebhook\<close> ends: the \<^verbatim>\<open>try\<close> block returned; or an error was caught
  and logged by the \<^verbatim>\<open>catch\<close> of line 111; or the \<^verbatim>\<open>catch\<close> itself threw, and the
  promise of \<^verbatim>\<open>receiveWebhook\<close> rejects. The \<^verbatim>\<open>catch\<close> reads \<^verbatim>\<open>error.message\<close>
  and \<^verbatim>\<open>error.stack\<close>: a TypeError on \<^verbatim>\<open>null\<close> and \<^verbatim>\<open>undefined\<close>, which only a
  handler can have rejected with.
\<close>

datatype completion = Returned | Logged js_error | Raised

fun catch_block :: "js_error \<Rightarrow> completion" where
  "catch_block TypeError = Logged TypeError"
| "catch_block (HandlerRejected Undefined) = Raised"
| "catch_block (HandlerRejected Null) = Raised"
| "catch_block (HandlerRejected v) = Logged (HandlerRejected v)"

text \<open>
  \<^verbatim>\<open>receiveWebhook\<close>, lines 43-117: the handler calls made, and how it ended. The
  response (status 200) is sent before any of this.
\<close>

definition receiveWebhook ::
  "(handler_call \<Rightarrow> handler_result) \<Rightarrow> jsval \<Rightarrow> handler_call list \<times> completion" where
  "receiveWebhook h body =
     (case process_payload h body of
        (cs, None) \<Rightarrow> (cs, Returned)
      | (cs, Some e) \<Rightarrow> (cs, catch_block e))"


text \<open>
  \<^verbatim>\<open>verifyWebhook\<close>, lines 21-33. A query parameter is a string or missing. The secret
  is the constant of line 12: the environment variable, or the default when the variable is
  unset or empty.
\<close>

record WebhookVerification =
  hub_mode :: "string option"
  hub_verify_token :: "string option"
  hub_challenge :: "string option"

record http_response =
  status :: nat
  content_type :: string
  resp_body :: "string option"

definition VERIFY_TOKEN :: "string option \<Rightarrow> string" where
  "VERIFY_TOKEN env =
     (case env of
        None \<Rightarrow> ''your-verify-token''
      | Some s \<Rightarrow> if s \<noteq> [] then s else ''your-verify-token'')"

definition verifyWebhook :: "string option \<Rightarrow> WebhookVerification \<Rightarrow> http_response" where
  "verifyWebhook env q =
     (if hub_mode q = Some ''subscribe'' \<and> hub_verify_token q = Some (VERIFY_TOKEN env)
      then \<lparr>status = 200, content_type = ''text/plain'', resp_body = hub_challenge q\<rparr>
      else \<lparr>status = 403, content_type = ''text/plain'', resp_body = Some ''Forbidden''\<rparr>)"

section \<open>metaService.ts\<close>

record MetaSendMessageParams =
  mp_psid :: string
  mp_text :: string
  accessToken :: string
  instagramAccountId :: "string option"

record http_request =
  url :: string
  payload :: jsval
  headers :: "(string \<times> string) list"
  timeout_ms :: nat

definition baseUrl :: string where
  "baseUrl = ''https://graph.facebook.com/v22.0''"

definition instagramBaseUrl :: string where
  "instagramBaseUrl = ''https://graph.instagram.com/v22.0''"

text \<open>
  \<^verbatim>\<open>sendMessage\<close>, lines 43-64: the request handed to \<^verbatim>\<open>axios.post\<close>. Whether the
  promise then resolves or rejects is the provider's answer. The account id is tested for
  truthiness (line 49): a missing one and an empty one take the second branch.
\<close>

definition sendMessage :: "MetaSendMessageParams \<Rightarrow> http_request" where
  "sendMessage params =
     \<lparr>url = (case instagramAccountId params of
               None \<Rightarrow> baseUrl @ ''/me/messages''
             | Some a \<Rightarrow> if a \<noteq> [] then instagramBaseUrl @ ''/'' @ a @ ''/messages''
                        else baseUrl @ ''/me/messages''),
      payload = JObj [(''recipient'', JObj [(''id'', JStr (mp_psid params))]),
                      (''message'', JObj [(''text'', JStr (mp_text params))])],
      headers = [(''Authorization'', ''Bearer '' @ accessToken params),
                 (''Content-Type'', ''application/json'')],
      timeout_ms = 15000\<rparr>"

section \<open>metaProcessor.ts\<close>

record MetaApiJobData =
  job_merchantId :: "string option"
  job_psid :: string
  job_text :: string
  job_dmLogId :: "string option"
  job_instagramAccountId :: "string option"

datatype process_error = TokenNotConfigured

text \<open>
  \<^verbatim>\<open>processMetaMessage\<close>, lines 18-59, up to its \<^verbatim>\<open>await\<close>: with no access token in
  the environment (unset or empty) it throws before the service is called; otherwise it calls
  \<^verbatim>\<open>metaService.sendMessage\<close>, whose request is the result here. A failure of the
  send is thrown again to the caller (line 57). The token is read from the environment at
  each call; a run of the queue is taken under one environment.
\<close>

definition processMetaMessage :: "string option \<Rightarrow> MetaApiJobData \<Rightarrow> process_error + http_request" where
  "processMetaMessage env_token jobData =
     (case env_token of
        None \<Rightarrow> Inl TokenNotConfigured
      | Some t \<Rightarrow>
          if t = [] then Inl TokenNotConfigured
          else Inr (sendMessage \<lparr>mp_psid = job_psid jobData, mp_text = job_text jobData,
                                 accessToken = t,
                                 instagramAccountId = job_instagramAccountId jobData\<rparr>))"

text \<open>
  The queue runs on the event loop: code between two \<^verbatim>\<open>await\<close>s is atomic. A drain
  loop (\<^verbatim>\<open>processQueue\<close>) is suspended either at line 95, waiting for
  \<^verbatim>\<open>processMetaMessage\<close> to settle (the flag tells whether a request was posted), or at
  line 98, waiting for the timer. The state keeps every suspended loop, so that two loops
  at once are expressible.
\<close>

datatype suspended = AwaitSend MetaApiJobData bool | AwaitTimer nat

datatype event =
    Invoke MetaApiJobData
  | Post http_request
  | Succeeded MetaApiJobData
  | Failed MetaApiJobData
  | WaitStart nat
  | WaitEnd

record queue_state =
  queue :: "MetaApiJobData list"
  processing :: bool
  loops :: "suspended list"
  trace :: "event list"

definition init :: queue_state where
  "init = \<lparr>queue = [], processing = False, loops = [], trace = []\<rparr>"

text \<open>
  Lines 90-107 from the loop test to the next suspension: an empty queue ends the loop and
  clears the flag; otherwise the oldest job is shifted and \<^verbatim>\<open>processMetaMessage\<close> is
  called (a job is an object, so the \<^verbatim>\<open>continue\<close> of line 92 is never taken).
\<close>

definition loop_head :: "string option \<Rightarrow> queue_state \<Rightarrow> queue_state \<times> suspended option" where
  "loop_head tok s =
     (case queue s of
        [] \<Rightarrow> (s\<lparr>processing := False\<rparr>, None)
      | jobData # rest \<Rightarrow>
          (case processMetaMessage tok jobData of
             Inl e \<Rightarrow> (s\<lparr>queue := rest, trace := trace s @ [Invoke jobData]\<rparr>,
                        Some (AwaitSend jobData False))
           | Inr req \<Rightarrow> (s\<lparr>queue := rest, trace := trace s @ [Invoke jobData, Post req]\<rparr>,
                          Some (AwaitSend jobData True))))"

text \<open>\<^verbatim>\<open>processQueue\<close>, lines 83-88, as called: a new loop unless the guard returns.\<close>

definition processQueue :: "string option \<Rightarrow> queue_state \<Rightarrow> queue_state" where
  "processQueue tok s =
     (if processing s \<or> queue s = [] then s
      else (case loop_head tok (s\<lparr>processing := True\<rparr>) of
              (s', None) \<Rightarrow> s'
            | (s', Some a) \<Rightarrow> s'\<lparr>loops := loops s' @ [a]\<rparr>))"

text \<open>\<^verbatim>\<open>add\<close>, lines 72-78. It returns to its caller here, whatever the sends do later.\<close>

definition add :: "string option \<Rightarrow> MetaApiJobData \<Rightarrow> queue_state \<Rightarrow> queue_state" where
  "add tok jobData s =
     (let s' = s\<lparr>queue := queue s @ [jobData]\<rparr>
      in if \<not> processing s' then processQueue tok s' else s')"

text \<open>\<^verbatim>\<open>queueMessage\<close>, lines 122-134.\<close>

definition queueMessage ::
  "string option \<Rightarrow> string \<Rightarrow> string \<Rightarrow> string option \<Rightarrow> string option \<Rightarrow> queue_state \<Rightarrow> queue_state" where
  "queueMessage tok p t ig dm s =
     add tok \<lparr>job_merchantId = None, job_psid = p, job_text = t, job_dmLogId = dm,
              job_instagramAccountId = ig\<rparr> s"

text \<open>Loop \<open>i\<close> goes on from the loop test after its \<^verbatim>\<open>await\<close>.\<close>

definition continue_loop :: "string option \<Rightarrow> nat \<Rightarrow> queue_state \<Rightarrow> queue_state" where
  "continue_loop tok i s =
     (case loop_head tok s of
        (s', None) \<Rightarrow> s'\<lparr>loops := take i (loops s') @ drop (Suc i) (loops s')\<rparr>
      | (s', Some a) \<Rightarrow> s'\<lparr>loops := (loops s')[i := a]\<rparr>)"

text \<open>
  What can happen next: a caller enqueues a job; the send awaited by loop \<open>i\<close> settles
  (resolved or rejected; only a posted request can resolve); the timer of loop \<open>i\<close> fires.
  A resolved send is followed by the timer of line 98 inside the \<^verbatim>\<open>try\<close>; a rejected
  one goes to the \<^verbatim>\<open>catch\<close> of line 99, which logs, and from there to the loop test.
  \<open>None\<close>: the action is not possible in this state.
\<close>

datatype action = Add MetaApiJobData | Settle nat bool | Tick nat

fun step :: "string option \<Rightarrow> action \<Rightarrow> queue_state \<Rightarrow> queue_state option" where
  "step tok (Add jobData) s = Some (add tok jobData s)"
| "step tok (Settle i ok) s =
     (if i < length (loops s) then
        (case loops s ! i of
           AwaitSend jobData posted \<Rightarrow>
             if ok then
               (if posted
                then Some (s\<lparr>loops := (loops s)[i := AwaitTimer 1000],
                            trace := trace s @ [Succeeded jobData, WaitStart 1000]\<rparr>)
                else None)
             else Some (continue_loop tok i (s\<lparr>trace := trace s @ [Failed jobData]\<rparr>))
         | AwaitTimer n \<Rightarrow> None)
      else None)"
| "step tok (Tick i) s =
     (if i < length (loops s) then
        (case loops s ! i of
           AwaitTimer n \<Rightarrow> Some (continue_loop tok i (s\<lparr>trace := trace s @ [WaitEnd]\<rparr>))
         | AwaitSend jobData posted \<Rightarrow> None)
      else None)"

fun run :: "string option \<Rightarrow> action list \<Rightarrow> queue_state \<Rightarrow> queue_state option" where
  "run tok [] s = Some s"
| "run tok (a # as) s = (case step tok a s of None \<Rightarrow> None | Some s' \<Rightarrow> run tok as s')"

text \<open>What a trace shows: the jobs sent, the requests posted, the jobs enqueued.\<close>

fun invoked :: "event list \<Rightarrow> MetaApiJobData list" where
  "invoked [] = []"
| "invoked (Invoke j # es) = j # invoked es"
| "invoked (e # es) = invoked es"

fun posted_requests :: "event list \<Rightarrow> http_request list" where
  "posted_requests [] = []"
| "posted_requests (Post r # es) = r # posted_requests es"
| "posted_requests (e # es) = posted_requests es"

fun enqueued :: "action list \<Rightarrow> MetaApiJobData list" where
  "enqueued [] = []"
| "enqueued (Add j # as) = j # enqueued as"
| "enqueued (a # as) = enqueued as"

text \<open>
  A send is in flight from its \<open>Invoke\<close> to its \<open>Succeeded\<close> or \<open>Failed\<close>. Reading a
  trace with the flag "a send is in flight": an \<open>Invoke\<close> while one is in flight, or a
  settlement while none is, is an overlap (\<open>None\<close>); otherwise the flag at the end.
\<close>

fun in_flight :: "bool \<Rightarrow> event list \<Rightarrow> bool option" where
  "in_flight b [] = Some b"
| "in_flight b (Invoke j # es) = (if b then None else in_flight True es)"
| "in_flight b (Succeeded j # es) = (if b then in_flight False es else None)"
| "in_flight b (Failed j # es) = (if b then in_flight False es else None)"
| "in_flight b (e # es) = in_flight b es"

definition no_overlap :: "event list \<Rightarrow> bool" where
  "no_overlap es = (in_flight False es \<noteq> None)"

text \<open>
  Pacing: after a send has settled, a timer must have fired before the next \<open>Invoke\<close>.
  The flag says that a send has settled and no timer has fired since.
\<close>

fun paced :: "bool \<Rightarrow> event list \<Rightarrow> bool" where
  "paced b [] = True"
| "paced b (Invoke j # es) = (\<not> b \<and> paced b es)"
| "paced b (Succeeded j # es) = paced True es"
| "paced b (Failed j # es) = paced True es"
| "paced b (WaitEnd # es) = paced False es"
| "paced b (e # es) = paced b es"

text \<open>The trace of a run from the initial state (empty when the schedule is impossible).\<close>

definition run_trace :: "string option \<Rightarrow> action list \<Rightarrow> event list" where
  "run_trace tok sched = (case run tok sched init of None \<Rightarrow> [] | Some s \<Rightarrow> trace s)"

text \<open>The requests that sending a list of jobs posts: one per job with a token, none without.\<close>

definition requests_for :: "string option \<Rightarrow> MetaApiJobData list \<Rightarrow> http_request list" where
  "requests_for tok js =
     concat (map (\<lambda>j. case processMetaMessage tok j of Inl e \<Rightarrow> [] | Inr r \<Rightarrow> [r]) js)"

text \<open>
  The invariant of the queue, for the jobs \<open>js\<close> enqueued so far: at most one loop, the
  flag set exactly while it exists, an idle queue empty, the jobs sent followed by the jobs
  waiting being \<open>js\<close>, and a send in flight exactly while the loop waits at line 95.
\<close>

fun awaiting_send :: "suspended list \<Rightarrow> bool" where
  "awaiting_send [AwaitSend j p] = True"
| "awaiting_send ls = False"

definition queue_inv :: "string option \<Rightarrow> MetaApiJobData list \<Rightarrow> queue_state \<Rightarrow> bool" where
  "queue_inv tok js s =
     (length (loops s) \<le> 1
      \<and> processing s = (loops s \<noteq> [])
      \<and> (loops s = [] \<longrightarrow> queue s = [])
      \<and> invoked (trace s) @ queue s = js
      \<and> in_flight False (trace s) = Some (awaiting_send (loops s))
      \<and> posted_requests (trace s) = requests_for tok (invoked (trace s)))"

text \<open>The failures a trace has logged (line 100), in order.\<close>

fun failures :: "event list \<Rightarrow> MetaApiJobData list" where
  "failures [] = []"
| "failures (Failed j # es) = j # failures es"
| "failures (e # es) = failures es"

section \<open>Properties of the webhook handler\<close>

subsection \<open>Auxiliary facts\<close>

lemma field_defined:
  "field e n \<noteq> Undefined \<Longrightarrow> js_in n e = Inr True"
  by (cases e) (auto split: option.splits dest: map_of_SomeD simp: rev_image_eqI)

lemma js_in_of_object:
  "field e n \<noteq> Undefined \<Longrightarrow> \<exists>b. js_in n' e = Inr b"
  by (cases e) auto

lemma handle_instagram_falsy:
  "js_in ''changes'' e = Inr b \<Longrightarrow> \<not> truthy (field e ''changes'')
     \<Longrightarrow> handle_instagram h e = ([], None)"
  by (simp add: handle_instagram_def)

lemma process_payload_single:
  "field body ''entry'' = JArr [e] \<Longrightarrow> process_payload h body = process_entry h e"
  by (cases body) (auto simp: process_payload_def split: prod.splits option.splits)

lemma receiveWebhook_calls: "fst (receiveWebhook h body) = fst (process_payload h body)"
  by (simp add: receiveWebhook_def split: prod.splits option.splits)

lemma receiveWebhook_single:
  "field body ''entry'' = JArr [e] \<Longrightarrow> fst (receiveWebhook h body) = fst (process_entry h e)"
  by (simp add: receiveWebhook_calls process_payload_single)

lemma call_handler_calls:
  "fst (call_handler h p t pf) =
     (if sliceable t then [\<lparr>c_psid = p, c_text = t, c_platform = pf\<rparr>] else [])"
  by (simp add: call_handler_def Let_def)

lemma handle_messenger_platform:
  "c \<in> set (fst (handle_messenger h e)) \<Longrightarrow> c_platform c = messenger"
  by (auto simp: handle_messenger_def call_handler_def Let_def split: sum.splits if_splits)

lemma handle_instagram_platform:
  "c \<in> set (fst (handle_instagram h e)) \<Longrightarrow> c_platform c = instagram"
  by (auto simp: handle_instagram_def call_handler_def Let_def split: sum.splits if_splits)

lemma handle_messenger_length: "length (fst (handle_messenger h e)) \<le> 1"
  by (auto simp: handle_messenger_def call_handler_def Let_def split: sum.splits if_splits)

lemma handle_instagram_length: "length (fst (handle_instagram h e)) \<le> 1"
  by (auto simp: handle_instagram_def call_handler_def Let_def split: sum.splits if_splits)

lemma process_entry_calls:
  "fst (process_entry h e) =
     fst (handle_messenger h e)
     @ (if snd (handle_messenger h e) = None then fst (handle_instagram h e) else [])"
  by (auto simp: process_entry_def split: prod.splits option.splits)

lemma handle_messenger_none_falsy:
  "\<not> truthy (field e ''messaging'') \<Longrightarrow> fst (handle_messenger h e) = []"
  by (auto simp: handle_messenger_def split: sum.splits)

lemma handle_instagram_none_falsy:
  "\<not> truthy (field e ''changes'') \<Longrightarrow> fst (handle_instagram h e) = []"
  by (auto simp: handle_instagram_def split: sum.splits)

lemma short_platforms:
  assumes "length xs \<le> 1" "\<forall>c \<in> set xs. c_platform c = p"
  shows "map c_platform xs = [] \<or> map c_platform xs = [p]"
  using assms by (cases xs) auto

lemma igMessage_fallback:
  "\<not> truthy (elem0 (field v ''messages'')) \<Longrightarrow> truthy (field (field v ''from'') ''id'')
     \<Longrightarrow> igMessage v = v"
  by (simp add: igMessage_def js_or_def)

lemma igMessage_first:
  "truthy (elem0 (field v ''messages'')) \<Longrightarrow> igMessage v = elem0 (field v ''messages'')"
  by (simp add: igMessage_def js_or_def)

lemma igMessage_none:
  "\<not> truthy (elem0 (field v ''messages'')) \<Longrightarrow> \<not> truthy (field (field v ''from'') ''id'')
     \<Longrightarrow> igMessage v = Null"
  by (simp add: igMessage_def js_or_def)


text \<open>The entry \<^verbatim>\<open>{changes: [{value: v}]}\<close>.\<close>

lemma process_changes_entry:
  "process_entry h (JObj [(''changes'', JArr [JObj [(''value'', v)]])]) =
     (if truthy (field (field (igMessage v) ''from'') ''id'')
      then call_handler h (field (field (igMessage v) ''from'') ''id'')
             (igText (igMessage v)) instagram
      else ([], None))"
  by (simp add: process_entry_def handle_messenger_def handle_instagram_def Let_def
      split: prod.splits option.splits)















lemmas webhook_eval = receiveWebhook_def process_payload_def process_entry_def handle_messenger_def
  handle_instagram_def call_handler_def igMessage_def igText_def js_or_def resolving_def

subsection \<open>The Messenger format\<close>

text \<open>
  C3, as the code has it. Take an entry whose first \<^verbatim>\<open>messaging\<close> element has
  \<^verbatim>\<open>sender.id\<close> equal to a non-empty string \<open>S\<close> and a \<^verbatim>\<open>message\<close> object, and
  that has no (truthy) \<^verbatim>\<open>changes\<close> field. Then the entry yields exactly one handler
  call, with recipient \<open>S\<close> and platform messenger; its text is \<open>T\<close> when
  \<^verbatim>\<open>message.text\<close> is the string \<open>T\<close>, and the empty string when \<^verbatim>\<open>message.text\<close>
  is missing. The same holds for the payload made of this one entry. The sender id is
  tested for truthiness (line 71), hence the condition that \<open>S\<close> is not empty.
\<close>

theorem primary_entry_emits_one_event:
  assumes "field entry ''messaging'' = JArr (m # ms)"
    and "field (field m ''sender'') ''id'' = JStr S" and "S \<noteq> []"
    and "field m ''message'' = JObj mfs"
    and "\<not> truthy (field entry ''changes'')"
    and "field body ''entry'' = JArr [entry]"
  shows "(field (JObj mfs) ''text'' = JStr T \<longrightarrow>
           fst (process_entry h entry)
             = [\<lparr>c_psid = JStr S, c_text = JStr T, c_platform = messenger\<rparr>]
           \<and> fst (receiveWebhook h body)
             = [\<lparr>c_psid = JStr S, c_text = JStr T, c_platform = messenger\<rparr>])
       \<and> (field (JObj mfs) ''text'' = Undefined \<longrightarrow>
           fst (process_entry h entry)
             = [\<lparr>c_psid = JStr S, c_text = JStr '''', c_platform = messenger\<rparr>]
           \<and> fst (receiveWebhook h body)
             = [\<lparr>c_psid = JStr S, c_text = JStr '''', c_platform = messenger\<rparr>])"
proof -
  have in_m: "js_in ''messaging'' entry = Inr True"
    using assms(1) by (intro field_defined) simp
  obtain b where in_c: "js_in ''changes'' entry = Inr b"
    using js_in_of_object [of entry "''messaging''" "''changes''"] assms(1) by auto
  have ig: "handle_instagram h entry = ([], None)"
    using in_c assms(5) by (rule handle_instagram_falsy)
  have whole: "fst (receiveWebhook h body) = fst (process_entry h entry)"
    using assms(6) by (rule receiveWebhook_single)
  have hm: "handle_messenger h entry
      = call_handler h (JStr S) (js_or (field (JObj mfs) ''text'') (JStr [])) messenger"
    using assms(1-4) in_m by (simp add: handle_messenger_def Let_def del: field.simps)
  have pe: "fst (process_entry h entry)
      = fst (call_handler h (JStr S) (js_or (field (JObj mfs) ''text'') (JStr [])) messenger)"
    by (simp add: process_entry_calls hm ig)
  have "field (JObj mfs) ''text'' = JStr T \<Longrightarrow>
        fst (process_entry h entry)
          = [\<lparr>c_psid = JStr S, c_text = JStr T, c_platform = messenger\<rparr>]"
    by (simp add: pe call_handler_calls js_or_def del: field.simps)
  moreover have "field (JObj mfs) ''text'' = Undefined \<Longrightarrow>
        fst (process_entry h entry)
          = [\<lparr>c_psid = JStr S, c_text = JStr [], c_platform = messenger\<rparr>]"
    by (simp add: pe call_handler_calls js_or_def del: field.simps)
  ultimately show ?thesis using whole by simp
qed

text \<open>The payload of the first scenario: one call, for \<open>u1\<close> with text \<open>hi\<close>.\<close>

theorem primary_entry_emits_one_event_witness:
  "fst (receiveWebhook resolving
     (JObj [(''object'', JStr ''page''),
            (''entry'', JArr [JObj [(''messaging'',
               JArr [JObj [(''sender'', JObj [(''id'', JStr ''u1'')]),
                           (''message'', JObj [(''text'', JStr ''hi'')])]])]])]))
   = [\<lparr>c_psid = JStr ''u1'', c_text = JStr ''hi'', c_platform = messenger\<rparr>]"
  using primary_entry_emits_one_event
    [of "JObj [(''messaging'',
               JArr [JObj [(''sender'', JObj [(''id'', JStr ''u1'')]),
                           (''message'', JObj [(''text'', JStr ''hi'')])]])]"
        "JObj [(''sender'', JObj [(''id'', JStr ''u1'')]),
                           (''message'', JObj [(''text'', JStr ''hi'')])]"
        "[]" "''u1''" "[(''text'', JStr ''hi'')]"
        "JObj [(''object'', JStr ''page''),
            (''entry'', JArr [JObj [(''messaging'',
               JArr [JObj [(''sender'', JObj [(''id'', JStr ''u1'')]),
                           (''message'', JObj [(''text'', JStr ''hi'')])]])]])]"
        "''hi''" resolving]
  by simp

text \<open>
  C3 as stated, for every \<open>S\<close>, fails at the empty string: the sender id is there, and
  no call is made.
\<close>

theorem empty_sender_id_counterexample:
  "fst (receiveWebhook resolving
     (JObj [(''object'', JStr ''page''),
            (''entry'', JArr [JObj [(''messaging'',
               JArr [JObj [(''sender'', JObj [(''id'', JStr '''')]),
                           (''message'', JObj [(''text'', JStr ''hi'')])]])]])]))
   = []"
  by (simp add: webhook_eval)

subsection \<open>The Instagram format\<close>




text \<open>
  C10, as the code has it. The message object of line 93 is the first element of
  \<^verbatim>\<open>value.messages\<close> when that is truthy; it is \<^verbatim>\<open>value\<close> itself (Branch B) exactly
  when that first element is falsy (field missing, empty array, or a first element that is
  undefined, null, false, zero or empty) and \<^verbatim>\<open>value.from.id\<close> is truthy (there and not
  empty); it is null otherwise. So an empty \<^verbatim>\<open>messages\<close> array with a non-empty
  \<^verbatim>\<open>value.from.id\<close> still yields a call, built from \<^verbatim>\<open>value\<close> (provided its text can
  be sliced for the log line, as a string can); and an entry whose \<^verbatim>\<open>messages[0]\<close> is an
  object without a truthy \<^verbatim>\<open>from.id\<close> yields nothing, whatever \<^verbatim>\<open>value.from.id\<close> is.
\<close>

theorem instagram_fallback_rule:
  "(\<not> truthy (elem0 (field v ''messages'')) \<and> truthy (field (field v ''from'') ''id'')
      \<longrightarrow> igMessage v = v)
 \<and> (truthy (elem0 (field v ''messages''))
      \<longrightarrow> igMessage v = elem0 (field v ''messages''))
 \<and> (\<not> truthy (elem0 (field v ''messages'')) \<and> \<not> truthy (field (field v ''from'') ''id'')
      \<longrightarrow> igMessage v = Null)
 \<and> (field v ''messages'' = JArr [] \<and> field (field v ''from'') ''id'' = JStr S \<and> S \<noteq> []
      \<and> sliceable (igText v)
      \<longrightarrow> fst (process_entry h (JObj [(''changes'', JArr [JObj [(''value'', v)]])]))
            = [\<lparr>c_psid = JStr S, c_text = igText v, c_platform = instagram\<rparr>])
 \<and> (elem0 (field v ''messages'') = JObj mfs
      \<and> \<not> truthy (field (field (JObj mfs) ''from'') ''id'')
      \<longrightarrow> process_entry h (JObj [(''changes'', JArr [JObj [(''value'', v)]])]) = ([], None))"
proof -
  have d: "fst (process_entry h (JObj [(''changes'', JArr [JObj [(''value'', v)]])]))
            = [\<lparr>c_psid = JStr S, c_text = igText v, c_platform = instagram\<rparr>]"
    if "field v ''messages'' = JArr []" "field (field v ''from'') ''id'' = JStr S" "S \<noteq> []"
       "sliceable (igText v)"
  proof -
    have "igMessage v = v" using that by (intro igMessage_fallback) simp_all
    then show ?thesis using that
      by (simp add: process_changes_entry call_handler_calls del: field.simps)
  qed
  have e: "process_entry h (JObj [(''changes'', JArr [JObj [(''value'', v)]])]) = ([], None)"
    if "elem0 (field v ''messages'') = JObj mfs"
       "\<not> truthy (field (field (JObj mfs) ''from'') ''id'')"
  proof -
    have "igMessage v = JObj mfs" using that(1) by (simp add: igMessage_first)
    then show ?thesis using that(2) by (simp add: process_changes_entry del: field.simps)
  qed
  show ?thesis
    using igMessage_fallback [of v] igMessage_first [of v] igMessage_none [of v] d e by blast
qed

text \<open>
  An empty \<^verbatim>\<open>messages\<close> array beside \<^verbatim>\<open>from.id = "u2"\<close>: one call. A first message
  without \<^verbatim>\<open>from\<close> beside \<^verbatim>\<open>value.from.id = "u2"\<close>: none.
\<close>

theorem instagram_fallback_rule_witness:
  "fst (process_entry resolving (JObj [(''changes'', JArr [JObj [(''value'',
      JObj [(''messages'', JArr []), (''from'', JObj [(''id'', JStr ''u2'')]),
            (''text'', JStr ''yo'')])]])]))
     = [\<lparr>c_psid = JStr ''u2'', c_text = JStr ''yo'', c_platform = instagram\<rparr>]
   \<and> process_entry resolving (JObj [(''changes'', JArr [JObj [(''value'',
      JObj [(''messages'', JArr [JObj [(''text'', JStr ''yo'')]]),
            (''from'', JObj [(''id'', JStr ''u2'')])])]])])
     = ([], None)"
  using instagram_fallback_rule
      [of "JObj [(''messages'', JArr []), (''from'', JObj [(''id'', JStr ''u2'')]),
                 (''text'', JStr ''yo'')]"
          "''u2''" resolving "[]"]
    instagram_fallback_rule
      [of "JObj [(''messages'', JArr [JObj [(''text'', JStr ''yo'')]]),
                 (''from'', JObj [(''id'', JStr ''u2'')])]"
          "''''" resolving "[(''text'', JStr ''yo'')]"]
  by (simp add: igText_def js_or_def)

text \<open>
  C10 as stated fails where \<^verbatim>\<open>value.from.id\<close> is there but empty: with an empty
  \<^verbatim>\<open>messages\<close> array beside it, no call is made.
\<close>

theorem empty_from_id_counterexample:
  "fst (process_entry resolving (JObj [(''changes'', JArr [JObj [(''value'',
      JObj [(''messages'', JArr []), (''from'', JObj [(''id'', JStr '''')]),
            (''text'', JStr ''yo'')])]])]))
     = []"
  by (simp add: webhook_eval)

subsection \<open>The two formats in one entry, and malformed entries\<close>

text \<open>
  C5, as the code has it. The two formats are handled by two \<^verbatim>\<open>if\<close> statements in
  sequence, not by an \<^verbatim>\<open>else\<close>: the \<^verbatim>\<open>changes\<close> branch is consulted whether or not
  the entry has a \<^verbatim>\<open>messaging\<close> field. An entry without a truthy \<^verbatim>\<open>messaging\<close>
  field yields only instagram calls, an entry without a truthy \<^verbatim>\<open>changes\<close> field only
  messenger calls, and any entry yields at most one call of each platform, the messenger
  one first.
\<close>

theorem entry_shapes_handled_independently:
  "(\<not> truthy (field e ''messaging'') \<longrightarrow>
      (\<forall>c \<in> set (fst (process_entry h e)). c_platform c = instagram))
 \<and> (\<not> truthy (field e ''changes'') \<longrightarrow>
      (\<forall>c \<in> set (fst (process_entry h e)). c_platform c = messenger))
 \<and> map c_platform (fst (process_entry h e))
      \<in> {[], [messenger], [instagram], [messenger, instagram]}"
proof -
  have a: "\<not> truthy (field e ''messaging'') \<Longrightarrow>
      \<forall>c \<in> set (fst (process_entry h e)). c_platform c = instagram"
    by (auto simp: process_entry_calls handle_messenger_none_falsy
        dest: handle_instagram_platform split: if_splits)
  have b: "\<not> truthy (field e ''changes'') \<Longrightarrow>
      \<forall>c \<in> set (fst (process_entry h e)). c_platform c = messenger"
    by (auto simp: process_entry_calls handle_instagram_none_falsy
        dest: handle_messenger_platform split: if_splits)
  have m: "map c_platform (fst (handle_messenger h e)) = []
         \<or> map c_platform (fst (handle_messenger h e)) = [messenger]"
    by (rule short_platforms [OF handle_messenger_length]) (auto dest: handle_messenger_platform)
  have i: "map c_platform (fst (handle_instagram h e)) = []
         \<or> map c_platform (fst (handle_instagram h e)) = [instagram]"
    by (rule short_platforms [OF handle_instagram_length]) (auto dest: handle_instagram_platform)
  have c: "map c_platform (fst (process_entry h e))
      \<in> {[], [messenger], [instagram], [messenger, instagram]}"
    using m i by (auto simp: process_entry_calls)
  show ?thesis using a b c by blast
qed

text \<open>An entry with \<^verbatim>\<open>changes\<close> only: its one call is an instagram call.\<close>

theorem entry_shapes_handled_independently_witness:
  "\<not> truthy (field (JObj [(''changes'', JArr [JObj [(''value'',
        JObj [(''from'', JObj [(''id'', JStr ''u2'')]), (''text'', JStr ''yo'')])]])])
      ''messaging'')
   \<and> map c_platform (fst (process_entry resolving (JObj [(''changes'', JArr [JObj [(''value'',
        JObj [(''from'', JObj [(''id'', JStr ''u2'')]), (''text'', JStr ''yo'')])]])])))
      = [instagram]"
  using entry_shapes_handled_independently
    [of "JObj [(''changes'', JArr [JObj [(''value'',
        JObj [(''from'', JObj [(''id'', JStr ''u2'')]), (''text'', JStr ''yo'')])]])]" resolving]
  by (simp add: webhook_eval)

text \<open>
  C5 as stated fails on an entry that has both fields: it yields a messenger call and an
  instagram call.
\<close>

theorem entry_with_both_shapes_counterexample:
  "fst (process_entry resolving
     (JObj [(''messaging'', JArr [JObj [(''sender'', JObj [(''id'', JStr ''u1'')]),
                                        (''message'', JObj [(''text'', JStr ''hi'')])]]),
            (''changes'', JArr [JObj [(''value'',
                JObj [(''from'', JObj [(''id'', JStr ''u2'')]), (''text'', JStr ''yo'')])]])]))
   = [\<lparr>c_psid = JStr ''u1'', c_text = JStr ''hi'', c_platform = messenger\<rparr>,
      \<lparr>c_psid = JStr ''u2'', c_text = JStr ''yo'', c_platform = instagram\<rparr>]"
  by (simp add: webhook_eval)




subsection \<open>The verification handshake\<close>

text \<open>
  C9. When \<^verbatim>\<open>hub.mode\<close> is the literal \<^verbatim>\<open>subscribe\<close> and \<^verbatim>\<open>hub.verify_token\<close> is
  the configured secret, the response has status 200 and its body is \<^verbatim>\<open>hub.challenge\<close>;
  with any other mode, or any other token, the status is 403. The response is a function
  of the secret and the three parameters alone.
\<close>

theorem verifyWebhook_handshake:
  "(hub_mode q = Some ''subscribe'' \<and> hub_verify_token q = Some (VERIFY_TOKEN env) \<longrightarrow>
      status (verifyWebhook env q) = 200 \<and> resp_body (verifyWebhook env q) = hub_challenge q)
 \<and> (hub_mode q \<noteq> Some ''subscribe'' \<or> hub_verify_token q \<noteq> Some (VERIFY_TOKEN env) \<longrightarrow>
      status (verifyWebhook env q) = 403)"
  by (simp add: verifyWebhook_def)

text \<open>The right token gets the challenge \<open>xyz\<close> back; a wrong one gets 403.\<close>

theorem verifyWebhook_handshake_witness:
  "verifyWebhook (Some ''s3cret'')
      \<lparr>hub_mode = Some ''subscribe'', hub_verify_token = Some ''s3cret'',
       hub_challenge = Some ''xyz''\<rparr>
     = \<lparr>status = 200, content_type = ''text/plain'', resp_body = Some ''xyz''\<rparr>
   \<and> status (verifyWebhook (Some ''s3cret'')
      \<lparr>hub_mode = Some ''subscribe'', hub_verify_token = Some ''wrong'',
       hub_challenge = Some ''xyz''\<rparr>)
     = 403"
  using verifyWebhook_handshake
      [of "\<lparr>hub_mode = Some ''subscribe'', hub_verify_token = Some ''s3cret'',
            hub_challenge = Some ''xyz''\<rparr>"
          "Some ''s3cret''"]
    verifyWebhook_handshake
      [of "\<lparr>hub_mode = Some ''subscribe'', hub_verify_token = Some ''wrong'',
            hub_challenge = Some ''xyz''\<rparr>"
          "Some ''s3cret''"]
  by (simp add: VERIFY_TOKEN_def verifyWebhook_def)

section \<open>Properties of the service and of the queue\<close>

subsection \<open>Routing of a send\<close>

text \<open>
  C8, as the code has it. The endpoint depends on \<^verbatim>\<open>instagramAccountId\<close> alone: when
  it is there and not empty the request goes to the Instagram base URL, scoped to that
  account; when it is missing or empty, to \<^verbatim>\<open>/me/messages\<close> under the primary base
  URL. Two sends with the same account id go to the same URL, whatever their other fields.
  The body is always \<^verbatim>\<open>{recipient: {id: psid}, message: {text}}\<close>.
\<close>

theorem sendMessage_routing:
  "(instagramAccountId params = Some a \<and> a \<noteq> [] \<longrightarrow>
      url (sendMessage params) = instagramBaseUrl @ ''/'' @ a @ ''/messages'')
 \<and> (instagramAccountId params = None \<or> instagramAccountId params = Some [] \<longrightarrow>
      url (sendMessage params) = baseUrl @ ''/me/messages'')
 \<and> (instagramAccountId params = instagramAccountId params' \<longrightarrow>
      url (sendMessage params) = url (sendMessage params'))
 \<and> payload (sendMessage params)
      = JObj [(''recipient'', JObj [(''id'', JStr (mp_psid params))]),
              (''message'', JObj [(''text'', JStr (mp_text params))])]"
  by (auto simp: sendMessage_def)

text \<open>With the account id \<open>178\<close>, and with none.\<close>

theorem sendMessage_routing_witness:
  "url (sendMessage \<lparr>mp_psid = ''u2'', mp_text = ''yo'', accessToken = ''tk'',
                     instagramAccountId = Some ''178''\<rparr>)
     = ''https://graph.instagram.com/v22.0/178/messages''
   \<and> url (sendMessage \<lparr>mp_psid = ''u1'', mp_text = ''hi'', accessToken = ''tk'',
                     instagramAccountId = None\<rparr>)
     = ''https://graph.facebook.com/v22.0/me/messages''"
  using sendMessage_routing
      [of "\<lparr>mp_psid = ''u2'', mp_text = ''yo'', accessToken = ''tk'',
                     instagramAccountId = Some ''178''\<rparr>" "''178''"
          "\<lparr>mp_psid = ''u2'', mp_text = ''yo'', accessToken = ''tk'',
                     instagramAccountId = Some ''178''\<rparr>"]
    sendMessage_routing
      [of "\<lparr>mp_psid = ''u1'', mp_text = ''hi'', accessToken = ''tk'',
                     instagramAccountId = None\<rparr>" "''''"
          "\<lparr>mp_psid = ''u1'', mp_text = ''hi'', accessToken = ''tk'',
                     instagramAccountId = None\<rparr>"]
  by (simp add: baseUrl_def instagramBaseUrl_def)

text \<open>
  C8 as stated fails for an account id that is there but empty: the request goes to the
  primary endpoint.
\<close>

theorem empty_account_id_counterexample:
  "url (sendMessage \<lparr>mp_psid = ''u1'', mp_text = ''hi'', accessToken = ''tk'',
                     instagramAccountId = Some ''''\<rparr>)
     = ''https://graph.facebook.com/v22.0/me/messages''"
  by (simp add: sendMessage_def baseUrl_def)

subsection \<open>The queue: auxiliary facts\<close>

lemma invoked_append: "invoked (xs @ ys) = invoked xs @ invoked ys"
  by (induction xs rule: invoked.induct) auto

lemma posted_requests_append: "posted_requests (xs @ ys) = posted_requests xs @ posted_requests ys"
  by (induction xs rule: posted_requests.induct) auto

lemma enqueued_append: "enqueued (xs @ ys) = enqueued xs @ enqueued ys"
  by (induction xs rule: enqueued.induct) auto

lemma in_flight_append:
  "in_flight b (xs @ ys) = (case in_flight b xs of None \<Rightarrow> None | Some b' \<Rightarrow> in_flight b' ys)"
  by (induction b xs rule: in_flight.induct) auto

lemma requests_for_append: "requests_for tok (xs @ ys) = requests_for tok xs @ requests_for tok ys"
  by (simp add: requests_for_def)

lemma run_append:
  "run tok (xs @ ys) s = (case run tok xs s of None \<Rightarrow> None | Some s' \<Rightarrow> run tok ys s')"
  by (induction xs arbitrary: s) (auto split: option.splits)

lemma queue_inv_init: "queue_inv tok [] init"
  by (simp add: queue_inv_def init_def requests_for_def)

lemma loops_cases:
  assumes "length ls \<le> 1"
  obtains "ls = []" | j p where "ls = [AwaitSend j p]" | n where "ls = [AwaitTimer n]"
proof (cases ls)
  case Nil then show ?thesis using that by simp
next
  case (Cons a as)
  then have "as = []" using assms by simp
  then show ?thesis using Cons that by (cases a) auto
qed

text \<open>The loop test after a suspension of the only loop, no send in flight.\<close>

lemma continue_loop_inv:
  assumes "length (loops s) = 1" "processing s"
    and "invoked (trace s) @ queue s = js"
    and "in_flight False (trace s) = Some False"
    and "posted_requests (trace s) = requests_for tok (invoked (trace s))"
  shows "queue_inv tok js (continue_loop tok 0 s)"
proof (cases "queue s")
  case Nil
  then show ?thesis using assms
    by (simp add: continue_loop_def loop_head_def queue_inv_def)
next
  case (Cons j rest)
  obtain l where l: "loops s = [l]" using assms(1) by (cases "loops s") auto
  show ?thesis
  proof (cases "processMetaMessage tok j")
    case (Inl e)
    then show ?thesis using assms Cons l
      by (auto simp: continue_loop_def loop_head_def queue_inv_def invoked_append
          in_flight_append posted_requests_append requests_for_append requests_for_def)
  next
    case (Inr r)
    then show ?thesis using assms Cons l
      by (auto simp: continue_loop_def loop_head_def queue_inv_def invoked_append
          in_flight_append posted_requests_append requests_for_append requests_for_def)
  qed
qed

lemma add_inv:
  assumes "queue_inv tok js s"
  shows "queue_inv tok (js @ [j]) (add tok j s)"
proof (cases "processing s")
  case True
  then show ?thesis using assms by (auto simp: add_def queue_inv_def Let_def)
next
  case False
  then have idle: "loops s = []" "queue s = []" using assms by (auto simp: queue_inv_def)
  show ?thesis
  proof (cases "processMetaMessage tok j")
    case (Inl e)
    then show ?thesis using assms False idle
      by (auto simp: add_def processQueue_def loop_head_def queue_inv_def Let_def invoked_append
          in_flight_append posted_requests_append requests_for_append requests_for_def)
  next
    case (Inr r)
    then show ?thesis using assms False idle
      by (auto simp: add_def processQueue_def loop_head_def queue_inv_def Let_def invoked_append
          in_flight_append posted_requests_append requests_for_append requests_for_def)
  qed
qed

lemma step_inv:
  assumes "queue_inv tok js s" "step tok a s = Some s'"
  shows "queue_inv tok (js @ enqueued [a]) s'"
proof (cases a)
  case (Add j)
  then show ?thesis using assms add_inv by auto
next
  case (Settle i ok)
  have len: "length (loops s) \<le> 1" using assms(1) by (simp add: queue_inv_def)
  from len show ?thesis
  proof (cases rule: loops_cases)
    case 1
    then show ?thesis using assms Settle by simp
  next
    case (2 j p)
    then have i0: "i = 0" using assms(2) Settle by (auto split: if_splits)
    show ?thesis
    proof (cases ok)
      case True
      then show ?thesis using assms Settle 2 i0
        by (auto simp: queue_inv_def invoked_append in_flight_append posted_requests_append
            split: if_splits)
    next
      case False
      then have s': "s' = continue_loop tok 0 (s\<lparr>trace := trace s @ [Failed j]\<rparr>)"
        using assms(2) Settle 2 i0 by simp
      show ?thesis unfolding s' using assms(1) 2 Settle
        by (intro continue_loop_inv)
           (auto simp: queue_inv_def invoked_append in_flight_append posted_requests_append)
    qed
  next
    case (3 n)
    then show ?thesis using assms Settle by (auto split: if_splits)
  qed
next
  case (Tick i)
  have len: "length (loops s) \<le> 1" using assms(1) by (simp add: queue_inv_def)
  from len show ?thesis
  proof (cases rule: loops_cases)
    case 1
    then show ?thesis using assms Tick by simp
  next
    case (2 j p)
    then show ?thesis using assms Tick by (auto split: if_splits)
  next
    case (3 n)
    then have i0: "i = 0" using assms(2) Tick by (auto split: if_splits)
    then have s': "s' = continue_loop tok 0 (s\<lparr>trace := trace s @ [WaitEnd]\<rparr>)"
      using assms(2) Tick 3 by simp
    show ?thesis unfolding s' using assms(1) 3 Tick
      by (intro continue_loop_inv)
         (auto simp: queue_inv_def invoked_append in_flight_append posted_requests_append)
  qed
qed

lemma run_inv:
  "queue_inv tok js s \<Longrightarrow> run tok as s = Some s' \<Longrightarrow> queue_inv tok (js @ enqueued as) s'"
proof (induction as arbitrary: s js)
  case Nil
  then show ?case by simp
next
  case (Cons a as)
  from Cons.prems(2) obtain s1 where s1: "step tok a s = Some s1" "run tok as s1 = Some s'"
    by (auto split: option.splits)
  have "queue_inv tok (js @ enqueued [a]) s1" using Cons.prems(1) s1(1) by (rule step_inv)
  then have "queue_inv tok ((js @ enqueued [a]) @ enqueued as) s'" using s1(2) by (rule Cons.IH)
  moreover have "enqueued (a # as) = enqueued [a] @ enqueued as"
    using enqueued_append [of "[a]" as] by simp
  ultimately show ?case by simp
qed

lemma continue_loop_next:
  assumes "queue s = j' # rest" "loops s = [l]"
  shows "\<exists>p'. loops (continue_loop tok 0 s) = [AwaitSend j' p']"
    and "queue (continue_loop tok 0 s) = rest"
    and "\<exists>tl. trace (continue_loop tok 0 s) = trace s @ Invoke j' # tl \<and> invoked tl = []"
    and "processing (continue_loop tok 0 s) = processing s"
proof -
  show "\<exists>p'. loops (continue_loop tok 0 s) = [AwaitSend j' p']"
    using assms by (cases "processMetaMessage tok j'") (auto simp: continue_loop_def loop_head_def)
  show "queue (continue_loop tok 0 s) = rest"
    using assms by (cases "processMetaMessage tok j'") (simp_all add: continue_loop_def loop_head_def)
  show "\<exists>tl. trace (continue_loop tok 0 s) = trace s @ Invoke j' # tl \<and> invoked tl = []"
    using assms by (cases "processMetaMessage tok j'") (simp_all add: continue_loop_def loop_head_def)
  show "processing (continue_loop tok 0 s) = processing s"
    using assms by (cases "processMetaMessage tok j'") (simp_all add: continue_loop_def loop_head_def)
qed

lemma continue_loop_last:
  assumes "queue s = []" "loops s = [l]"
  shows "continue_loop tok 0 s = s\<lparr>processing := False, loops := []\<rparr>"
  using assms by (simp add: continue_loop_def loop_head_def)

text \<open>Letting every pending send fail empties the queue.\<close>

lemma drain_by_failures:
  assumes "loops s = [AwaitSend j p]"
  shows "\<exists>s'. run tok (replicate (Suc (length (queue s))) (Settle 0 False)) s = Some s'
            \<and> loops s' = []"
  using assms
proof (induction "length (queue s)" arbitrary: s j p)
  case 0
  then show ?case
    by (simp add: continue_loop_def loop_head_def)
next
  case (Suc n)
  then obtain j' rest where q: "queue s = j' # rest" by (cases "queue s") auto
  let ?s1 = "continue_loop tok 0 (s\<lparr>trace := trace s @ [Failed j]\<rparr>)"
  have st: "step tok (Settle 0 False) s = Some ?s1" using Suc.prems by simp
  have l1: "\<exists>p'. loops ?s1 = [AwaitSend j' p']" and q1: "queue ?s1 = rest"
    using Suc.prems q continue_loop_next(1,2) [of "s\<lparr>trace := trace s @ [Failed j]\<rparr>" j' rest]
    by auto
  then obtain p' where l1': "loops ?s1 = [AwaitSend j' p']" by blast
  have n: "n = length (queue ?s1)" using Suc.hyps(2) q q1 by simp
  from Suc.hyps(1) [OF n l1'] obtain s' where
    "run tok (replicate (Suc (length (queue ?s1))) (Settle 0 False)) ?s1 = Some s'" "loops s' = []"
    by blast
  then show ?case using st q q1 by simp
qed

lemma enqueued_replicate_settle [simp]: "enqueued (replicate n (Settle i ok)) = []"
  by (induction n) auto

lemma completion:
  assumes "queue_inv tok js s"
  shows "\<exists>rest s'. enqueued rest = [] \<and> run tok rest s = Some s' \<and> loops s' = []"
proof -
  have len: "length (loops s) \<le> 1" using assms by (simp add: queue_inv_def)
  from len show ?thesis
  proof (cases rule: loops_cases)
    case 1
    have "enqueued [] = [] \<and> run tok [] s = Some s \<and> loops s = []" using 1 by simp
    then show ?thesis by blast
  next
    case (2 j p)
    from drain_by_failures [OF 2, of tok] obtain s' where
      "run tok (replicate (Suc (length (queue s))) (Settle 0 False)) s = Some s'" "loops s' = []"
      by blast
    then have "enqueued (replicate (Suc (length (queue s))) (Settle 0 False)) = []
        \<and> run tok (replicate (Suc (length (queue s))) (Settle 0 False)) s = Some s' \<and> loops s' = []"
      by simp
    then show ?thesis by blast
  next
    case (3 n)
    let ?s1 = "continue_loop tok 0 (s\<lparr>trace := trace s @ [WaitEnd]\<rparr>)"
    have st: "step tok (Tick 0) s = Some ?s1" using 3 by simp
    show ?thesis
    proof (cases "queue s")
      case Nil
      then have "loops ?s1 = []" using 3 by (simp add: continue_loop_def loop_head_def)
      then have "enqueued [Tick 0] = [] \<and> run tok [Tick 0] s = Some ?s1 \<and> loops ?s1 = []"
        using st by simp
      then show ?thesis by blast
    next
      case (Cons j' rest)
      then obtain p' where l1: "loops ?s1 = [AwaitSend j' p']"
        using 3 continue_loop_next(1) [of "s\<lparr>trace := trace s @ [WaitEnd]\<rparr>" j' rest]
        by auto
      from drain_by_failures [OF l1, of tok] obtain s' where
        r: "run tok (replicate (Suc (length (queue ?s1))) (Settle 0 False)) ?s1 = Some s'" "loops s' = []"
        by blast
      let ?rest = "Tick 0 # replicate (Suc (length (queue ?s1))) (Settle 0 False)"
      have "enqueued ?rest = [] \<and> run tok ?rest s = Some s' \<and> loops s' = []"
        using st r by simp
      then show ?thesis by blast
    qed
  qed
qed

lemma requests_for_no_token:
  "tok = None \<or> tok = Some [] \<Longrightarrow> requests_for tok js = []"
  by (auto simp: requests_for_def processMetaMessage_def)

lemma requests_for_token:
  "tok = Some t \<Longrightarrow> t \<noteq> [] \<Longrightarrow> map Inr (requests_for tok js) = map (processMetaMessage tok) js"
  by (induction js) (auto simp: requests_for_def processMetaMessage_def)

lemmas queue_eval = init_def add_def processQueue_def loop_head_def continue_loop_def
  processMetaMessage_def sendMessage_def baseUrl_def instagramBaseUrl_def Let_def

subsection \<open>Order, count and single flight\<close>

text \<open>
  C1, as the code has it. Take any schedule of enqueues, settlements and timer firings that
  the queue can run from its initial state; \<open>N\<close> jobs have been enqueued. Then
  \<^item> the jobs sent so far (the calls of \<^verbatim>\<open>processMetaMessage\<close>, the send step of the
    drain loop), followed by the jobs still waiting, are the enqueued jobs in enqueue
    order, so sends are strictly first in, first out and no job is sent twice;
  \<^item> once the queue is idle, exactly the \<open>N\<close> enqueued jobs have been sent;
  \<^item> no send starts while another is in flight;
  \<^item> at most one drain loop exists, and the flag \<^verbatim>\<open>processing\<close> is set exactly while
    it does, so an enqueue starts a loop only when there is none;
  \<^item> the run can always be completed without further enqueues, and then all \<open>N\<close> jobs
    have been sent;
  \<^item> each send calls the service (\<^verbatim>\<open>metaService.sendMessage\<close>) exactly once when an
    access token is configured in the environment, with the job's own request; with no
    token configured a send fails before the service is called, and no request is posted.
\<close>

theorem queue_fifo_single_flight:
  assumes "run tok sched init = Some s"
  shows "invoked (trace s) @ queue s = enqueued sched
       \<and> (loops s = [] \<longrightarrow> invoked (trace s) = enqueued sched)
       \<and> no_overlap (trace s)
       \<and> length (loops s) \<le> 1
       \<and> processing s = (loops s \<noteq> [])
       \<and> (\<exists>rest s'. enqueued rest = [] \<and> run tok (sched @ rest) init = Some s'
              \<and> loops s' = [] \<and> invoked (trace s') = enqueued sched)
       \<and> (\<forall>t. tok = Some t \<and> t \<noteq> [] \<longrightarrow>
             map Inr (posted_requests (trace s))
               = map (processMetaMessage tok) (invoked (trace s)))
       \<and> (tok = None \<or> tok = Some [] \<longrightarrow> posted_requests (trace s) = [])"
proof -
  have inv: "queue_inv tok (enqueued sched) s"
    using run_inv [OF queue_inv_init assms] by simp
  have a: "invoked (trace s) @ queue s = enqueued sched" using inv by (simp add: queue_inv_def)
  have b: "loops s = [] \<longrightarrow> invoked (trace s) = enqueued sched"
    using inv by (auto simp: queue_inv_def)
  have c: "no_overlap (trace s)" using inv by (simp add: queue_inv_def no_overlap_def)
  have d: "length (loops s) \<le> 1" "processing s = (loops s \<noteq> [])"
    using inv by (simp_all add: queue_inv_def)
  have e: "\<exists>rest s'. enqueued rest = [] \<and> run tok (sched @ rest) init = Some s'
              \<and> loops s' = [] \<and> invoked (trace s') = enqueued sched"
  proof -
    from completion [OF inv] obtain rest s' where
      r: "enqueued rest = []" "run tok rest s = Some s'" "loops s' = []" by blast
    have all: "run tok (sched @ rest) init = Some s'" using assms r(2) by (simp add: run_append)
    have "queue_inv tok (enqueued (sched @ rest)) s'"
      using run_inv [OF queue_inv_init all] by simp
    then have "invoked (trace s') = enqueued sched"
      using r(1,3) by (auto simp: queue_inv_def enqueued_append)
    then show ?thesis using r all by blast
  qed
  have p: "posted_requests (trace s) = requests_for tok (invoked (trace s))"
    using inv by (simp add: queue_inv_def)
  have f: "\<forall>t. tok = Some t \<and> t \<noteq> [] \<longrightarrow>
             map Inr (posted_requests (trace s))
               = map (processMetaMessage tok) (invoked (trace s))"
    using p requests_for_token by auto
  have g: "tok = None \<or> tok = Some [] \<longrightarrow> posted_requests (trace s) = []"
    using p requests_for_no_token by auto
  show ?thesis using a b c d e f g by blast
qed

text \<open>
  Two jobs enqueued at once, the first sent with success, the timer, the second sent and
  failed: both were sent, in order, without overlap, each to its endpoint.
\<close>

theorem queue_fifo_single_flight_witness:
  "\<exists>s. run (Some ''tk'')
         [Add \<lparr>job_merchantId = None, job_psid = ''u1'', job_text = ''hi'', job_dmLogId = None,
               job_instagramAccountId = None\<rparr>,
          Add \<lparr>job_merchantId = None, job_psid = ''u2'', job_text = ''yo'', job_dmLogId = None,
               job_instagramAccountId = Some ''178''\<rparr>,
          Settle 0 True, Tick 0, Settle 0 False] init = Some s
       \<and> loops s = []
       \<and> invoked (trace s)
          = [\<lparr>job_merchantId = None, job_psid = ''u1'', job_text = ''hi'', job_dmLogId = None,
               job_instagramAccountId = None\<rparr>,
             \<lparr>job_merchantId = None, job_psid = ''u2'', job_text = ''yo'', job_dmLogId = None,
               job_instagramAccountId = Some ''178''\<rparr>]
       \<and> no_overlap (trace s)
       \<and> map url (posted_requests (trace s))
          = [''https://graph.facebook.com/v22.0/me/messages'',
             ''https://graph.instagram.com/v22.0/178/messages'']"
proof -
  let ?sched = "[Add \<lparr>job_merchantId = None, job_psid = ''u1'', job_text = ''hi'',
                      job_dmLogId = None, job_instagramAccountId = None\<rparr>,
          Add \<lparr>job_merchantId = None, job_psid = ''u2'', job_text = ''yo'', job_dmLogId = None,
               job_instagramAccountId = Some ''178''\<rparr>,
          Settle 0 True, Tick 0, Settle 0 False]"
  obtain s where s: "run (Some ''tk'') ?sched init = Some s" "loops s = []"
      "map url (posted_requests (trace s))
          = [''https://graph.facebook.com/v22.0/me/messages'',
             ''https://graph.instagram.com/v22.0/178/messages'']"
    by (simp add: queue_eval)
  from queue_fifo_single_flight [OF s(1)] s show ?thesis by simp
qed

text \<open>
  C1 as stated, in numbers of calls of the Delivery Client, fails when no access token is
  configured: one job is enqueued and sent, the send fails at line 33, the queue is idle
  again, and no request has been posted.
\<close>

theorem missing_token_counterexample:
  "run None [Add \<lparr>job_merchantId = None, job_psid = ''u1'', job_text = ''hi'',
                  job_dmLogId = None, job_instagramAccountId = None\<rparr>, Settle 0 False] init
     = Some \<lparr>queue = [], processing = False, loops = [],
             trace = [Invoke \<lparr>job_merchantId = None, job_psid = ''u1'', job_text = ''hi'',
                              job_dmLogId = None, job_instagramAccountId = None\<rparr>,
                      Failed \<lparr>job_merchantId = None, job_psid = ''u1'', job_text = ''hi'',
                              job_dmLogId = None, job_instagramAccountId = None\<rparr>]\<rparr>
   \<and> posted_requests
        [Invoke \<lparr>job_merchantId = None, job_psid = ''u1'', job_text = ''hi'',
                 job_dmLogId = None, job_instagramAccountId = None\<rparr>,
         Failed \<lparr>job_merchantId = None, job_psid = ''u1'', job_text = ''hi'',
                 job_dmLogId = None, job_instagramAccountId = None\<rparr>] = []"
  by (simp add: queue_eval)

subsection \<open>Pacing\<close>

text \<open>
  C2 asks for the pacing wait after every attempt, failed ones included. The timer of
  line 98 stands inside the \<^verbatim>\<open>try\<close>, after the send: a rejected send jumps over it.
  Two jobs are enqueued and the first send fails: the second send starts in the same step,
  with no wait between the two, and the trace is not paced. When the first send succeeds,
  the timer runs between the two sends and the trace is paced.
\<close>

theorem failed_send_not_paced:
  "run_trace (Some ''tk'')
     [Add \<lparr>job_merchantId = None, job_psid = ''u1'', job_text = ''hi'', job_dmLogId = None,
           job_instagramAccountId = None\<rparr>,
      Add \<lparr>job_merchantId = None, job_psid = ''u2'', job_text = ''yo'', job_dmLogId = None,
           job_instagramAccountId = None\<rparr>,
      Settle 0 False]
   = [Invoke \<lparr>job_merchantId = None, job_psid = ''u1'', job_text = ''hi'', job_dmLogId = None,
           job_instagramAccountId = None\<rparr>,
      Post \<lparr>url = ''https://graph.facebook.com/v22.0/me/messages'',
            payload = JObj [(''recipient'', JObj [(''id'', JStr ''u1'')]),
                            (''message'', JObj [(''text'', JStr ''hi'')])],
            headers = [(''Authorization'', ''Bearer tk''),
                       (''Content-Type'', ''application/json'')],
            timeout_ms = 15000\<rparr>,
      Failed \<lparr>job_merchantId = None, job_psid = ''u1'', job_text = ''hi'', job_dmLogId = None,
           job_instagramAccountId = None\<rparr>,
      Invoke \<lparr>job_merchantId = None, job_psid = ''u2'', job_text = ''yo'', job_dmLogId = None,
           job_instagramAccountId = None\<rparr>,
      Post \<lparr>url = ''https://graph.facebook.com/v22.0/me/messages'',
            payload = JObj [(''recipient'', JObj [(''id'', JStr ''u2'')]),
                            (''message'', JObj [(''text'', JStr ''yo'')])],
            headers = [(''Authorization'', ''Bearer tk''),
                       (''Content-Type'', ''application/json'')],
            timeout_ms = 15000\<rparr>]
  \<and> \<not> paced False (run_trace (Some ''tk'')
     [Add \<lparr>job_merchantId = None, job_psid = ''u1'', job_text = ''hi'', job_dmLogId = None,
           job_instagramAccountId = None\<rparr>,
      Add \<lparr>job_merchantId = None, job_psid = ''u2'', job_text = ''yo'', job_dmLogId = None,
           job_instagramAccountId = None\<rparr>,
      Settle 0 False])
  \<and> paced False (run_trace (Some ''tk'')
     [Add \<lparr>job_merchantId = None, job_psid = ''u1'', job_text = ''hi'', job_dmLogId = None,
           job_instagramAccountId = None\<rparr>,
      Add \<lparr>job_merchantId = None, job_psid = ''u2'', job_text = ''yo'', job_dmLogId = None,
           job_instagramAccountId = None\<rparr>,
      Settle 0 True, Tick 0])"
  by (simp add: run_trace_def queue_eval)

subsection \<open>Failure isolation\<close>

lemma failures_append: "failures (xs @ ys) = failures xs @ failures ys"
  by (induction xs rule: failures.induct) auto

lemma failures_posts: "failures (map Post rs) = []"
  by (induction rs) auto

text \<open>The loop test with a job waiting: what the next send is, exactly.\<close>

lemma continue_loop_next_state:
  assumes "queue s = j' # rest" "loops s = [l]"
  shows "continue_loop tok 0 s
    = s\<lparr>queue := rest,
        trace := trace s @ Invoke j' # map Post (requests_for tok [j']),
        loops := [AwaitSend j' (requests_for tok [j'] \<noteq> [])]\<rparr>"
  using assms
  by (cases "processMetaMessage tok j'")
     (simp_all add: continue_loop_def loop_head_def requests_for_def)

lemma requests_for_one_token:
  "t \<noteq> [] \<Longrightarrow> requests_for (Some t) [j']
     = [sendMessage \<lparr>mp_psid = job_psid j', mp_text = job_text j', accessToken = t,
                      instagramAccountId = job_instagramAccountId j'\<rparr>]"
  by (simp add: requests_for_def processMetaMessage_def)

text \<open>An enqueue logs no failure, whatever the state of the queue.\<close>

lemma loop_head_failures: "failures (trace (fst (loop_head tok s))) = failures (trace s)"
  by (auto simp: loop_head_def failures_append split: list.splits sum.splits)

lemma processQueue_failures: "failures (trace (processQueue tok s)) = failures (trace s)"
proof -
  have "failures (trace (fst (loop_head tok (s\<lparr>processing := True\<rparr>)))) = failures (trace s)"
    using loop_head_failures [of tok "s\<lparr>processing := True\<rparr>"] by simp
  then show ?thesis
    by (auto simp: processQueue_def split: prod.splits option.splits)
qed

lemma add_failures: "failures (trace (add tok j0 s0)) = failures (trace s0)"
  by (simp add: add_def Let_def processQueue_failures)

text \<open>
  C7. The drain loop waits for the send of job \<open>j\<close>, and the send fails (the Delivery
  Client threw, or the token guard did). The step is always possible, and after it:
  \<^item> the failure is logged once, and the log is the only place where it shows;
  \<^item> with a job \<open>j'\<close> waiting, that job is processed in the same step:
    \<^verbatim>\<open>processMetaMessage\<close> is called for it and, with an access token \<open>t\<close> configured,
    the request of \<^verbatim>\<open>metaService.sendMessage\<close> for \<open>j'\<close> with \<open>t\<close> is posted and the
    loop waits for it; with no token the call is made, nothing is posted, and the loop
    waits for its rejection;
  \<^item> nothing else is sent, so \<open>j\<close> is not sent again, and the queue has lost \<open>j'\<close> and
    gained nothing, so \<open>j\<close> is not queued again;
  \<^item> with no job waiting the loop ends and clears the flag;
  \<^item> the enqueuer is not involved: an enqueue (\<^verbatim>\<open>add\<close>), in any state and for any job,
    returns a state and logs no failure, also the enqueue that started the send that
    fails later; and an enqueue made while the loop runs only appends the job.
\<close>

theorem failed_send_is_swallowed:
  assumes "loops s = [AwaitSend j p]"
  shows "\<exists>s'. step tok (Settle 0 False) s = Some s'
          \<and> (\<exists>tl. trace s' = trace s @ Failed j # tl
                  \<and> invoked tl = take 1 (queue s)
                  \<and> posted_requests tl = requests_for tok (take 1 (queue s))
                  \<and> failures tl = [])
          \<and> failures (trace s') = failures (trace s) @ [j]
          \<and> queue s' = drop 1 (queue s)
          \<and> (queue s = [] \<longrightarrow>
                trace s' = trace s @ [Failed j] \<and> loops s' = [] \<and> \<not> processing s')
          \<and> (queue s \<noteq> [] \<longrightarrow>
                (\<exists>p'. loops s' = [AwaitSend (hd (queue s)) p'])
                \<and> processing s' = processing s)
          \<and> (queue s \<noteq> [] \<and> tok = Some t \<and> t \<noteq> [] \<longrightarrow>
                trace s' = trace s @
                  [Failed j, Invoke (hd (queue s)),
                   Post (sendMessage \<lparr>mp_psid = job_psid (hd (queue s)),
                                       mp_text = job_text (hd (queue s)),
                                       accessToken = t,
                                       instagramAccountId
                                         = job_instagramAccountId (hd (queue s))\<rparr>)]
                \<and> loops s' = [AwaitSend (hd (queue s)) True])
          \<and> (queue s \<noteq> [] \<and> (tok = None \<or> tok = Some []) \<longrightarrow>
                trace s' = trace s @ [Failed j, Invoke (hd (queue s))]
                \<and> loops s' = [AwaitSend (hd (queue s)) False])
          \<and> step tok (Add j0) s0 = Some (add tok j0 s0)
          \<and> failures (trace (add tok j0 s0)) = failures (trace s0)
          \<and> (processing s0 \<longrightarrow> add tok j0 s0 = s0\<lparr>queue := queue s0 @ [j0]\<rparr>)"
proof -
  let ?s0 = "s\<lparr>trace := trace s @ [Failed j]\<rparr>"
  let ?s' = "continue_loop tok 0 ?s0"
  have st: "step tok (Settle 0 False) s = Some ?s'" using assms by simp
  have enq: "step tok (Add j0) s0 = Some (add tok j0 s0)
      \<and> failures (trace (add tok j0 s0)) = failures (trace s0)
      \<and> (processing s0 \<longrightarrow> add tok j0 s0 = s0\<lparr>queue := queue s0 @ [j0]\<rparr>)"
    by (simp add: add_failures) (simp add: add_def)
  show ?thesis
  proof (cases "queue s")
    case Nil
    then have "?s' = ?s0\<lparr>processing := False, loops := []\<rparr>"
      using assms by (intro continue_loop_last) simp_all
    then show ?thesis using st Nil enq
      by (simp add: failures_append requests_for_def)
  next
    case (Cons j' rest)
    have q0: "queue ?s0 = j' # rest" "loops ?s0 = [AwaitSend j p]" using Cons assms by simp_all
    have s': "?s' = ?s0\<lparr>queue := rest,
        trace := trace ?s0 @ Invoke j' # map Post (requests_for tok [j']),
        loops := [AwaitSend j' (requests_for tok [j'] \<noteq> [])]\<rparr>"
      using q0 by (rule continue_loop_next_state)
    have posts: "posted_requests (map Post (requests_for tok [j'])) = requests_for tok [j']"
      by (cases "processMetaMessage tok j'") (simp_all add: requests_for_def)
    have inv0: "invoked (map Post (requests_for tok [j'])) = []"
      by (cases "processMetaMessage tok j'") (simp_all add: requests_for_def)
    have tok1: "tok = Some t \<Longrightarrow> t \<noteq> [] \<Longrightarrow> requests_for tok [j']
        = [sendMessage \<lparr>mp_psid = job_psid j', mp_text = job_text j', accessToken = t,
                         instagramAccountId = job_instagramAccountId j'\<rparr>]"
      using requests_for_one_token by simp
    have tok0: "tok = None \<or> tok = Some [] \<Longrightarrow> requests_for tok [j'] = []"
      by (rule requests_for_no_token)
    have tr: "trace ?s' = trace s @ Failed j # Invoke j' # map Post (requests_for tok [j'])"
      by (simp add: s')
    have A: "\<exists>tl. trace ?s' = trace s @ Failed j # tl
                  \<and> invoked tl = take 1 (queue s)
                  \<and> posted_requests tl = requests_for tok (take 1 (queue s))
                  \<and> failures tl = []"
      using tr Cons posts inv0 by (simp add: failures_posts)
    have B: "failures (trace ?s') = failures (trace s) @ [j]"
      by (simp add: tr failures_append failures_posts)
    have C: "queue ?s' = drop 1 (queue s)" by (simp add: s' Cons)
    have D: "(\<exists>p'. loops ?s' = [AwaitSend (hd (queue s)) p'])
                \<and> processing ?s' = processing s"
      by (simp add: s' Cons)
    have E: "tok = Some t \<and> t \<noteq> [] \<longrightarrow>
                trace ?s' = trace s @
                  [Failed j, Invoke (hd (queue s)),
                   Post (sendMessage \<lparr>mp_psid = job_psid (hd (queue s)),
                                       mp_text = job_text (hd (queue s)),
                                       accessToken = t,
                                       instagramAccountId
                                         = job_instagramAccountId (hd (queue s))\<rparr>)]
                \<and> loops ?s' = [AwaitSend (hd (queue s)) True]"
    proof (intro impI)
      assume "tok = Some t \<and> t \<noteq> []"
      then have r: "requests_for tok [j']
        = [sendMessage \<lparr>mp_psid = job_psid j', mp_text = job_text j', accessToken = t,
                         instagramAccountId = job_instagramAccountId j'\<rparr>]"
        using tok1 by blast
      show "trace ?s' = trace s @
                  [Failed j, Invoke (hd (queue s)),
                   Post (sendMessage \<lparr>mp_psid = job_psid (hd (queue s)),
                                       mp_text = job_text (hd (queue s)),
                                       accessToken = t,
                                       instagramAccountId
                                         = job_instagramAccountId (hd (queue s))\<rparr>)]
                \<and> loops ?s' = [AwaitSend (hd (queue s)) True]"
        by (simp add: s' Cons r)
    qed
    have F: "tok = None \<or> tok = Some [] \<longrightarrow>
                trace ?s' = trace s @ [Failed j, Invoke (hd (queue s))]
                \<and> loops ?s' = [AwaitSend (hd (queue s)) False]"
    proof (intro impI)
      assume "tok = None \<or> tok = Some []"
      then have r: "requests_for tok [j'] = []" by (rule tok0)
      show "trace ?s' = trace s @ [Failed j, Invoke (hd (queue s))]
                \<and> loops ?s' = [AwaitSend (hd (queue s)) False]"
        by (simp add: s' Cons r)
    qed
    have ne: "queue s \<noteq> []" using Cons by simp
    show ?thesis
      using st A B C D E F enq ne by (intro exI [of _ ?s']) blast
  qed
qed

text \<open>
  The send of \<open>u1\<close> fails while \<open>u2\<close> waits, with a token: \<open>u2\<close> is sent next, its
  request goes to the primary endpoint, and the loop goes on.
\<close>

theorem failed_send_is_swallowed_witness:
  "\<exists>s'. step (Some ''tk'') (Settle 0 False)
          \<lparr>queue = [\<lparr>job_merchantId = None, job_psid = ''u2'', job_text = ''yo'',
                     job_dmLogId = None, job_instagramAccountId = None\<rparr>],
           processing = True,
           loops = [AwaitSend \<lparr>job_merchantId = None, job_psid = ''u1'', job_text = ''hi'',
                               job_dmLogId = None, job_instagramAccountId = None\<rparr> True],
           trace = []\<rparr> = Some s'
      \<and> invoked (trace s') = [\<lparr>job_merchantId = None, job_psid = ''u2'', job_text = ''yo'',
                                job_dmLogId = None, job_instagramAccountId = None\<rparr>]
      \<and> map url (posted_requests (trace s'))
           = [''https://graph.facebook.com/v22.0/me/messages'']
      \<and> failures (trace s')
           = [\<lparr>job_merchantId = None, job_psid = ''u1'', job_text = ''hi'',
               job_dmLogId = None, job_instagramAccountId = None\<rparr>]
      \<and> queue s' = []
      \<and> processing s'"
proof -
  let ?u1 = "\<lparr>job_merchantId = None, job_psid = ''u1'', job_text = ''hi'',
              job_dmLogId = None, job_instagramAccountId = None\<rparr>"
  let ?u2 = "\<lparr>job_merchantId = None, job_psid = ''u2'', job_text = ''yo'',
              job_dmLogId = None, job_instagramAccountId = None\<rparr>"
  let ?S = "\<lparr>queue = [?u2], processing = True, loops = [AwaitSend ?u1 True], trace = []\<rparr>"
  have h: "loops ?S = [AwaitSend ?u1 True]" by simp
  from failed_send_is_swallowed [OF h, of "Some ''tk''" "''tk''" ?u1 init]
  obtain s' where
    st: "step (Some ''tk'') (Settle 0 False) ?S = Some s'"
    and tr: "queue ?S \<noteq> [] \<and> Some ''tk'' = Some ''tk'' \<and> ''tk'' \<noteq> [] \<longrightarrow>
                trace s' = trace ?S @
                  [Failed ?u1, Invoke (hd (queue ?S)),
                   Post (sendMessage \<lparr>mp_psid = job_psid (hd (queue ?S)),
                                       mp_text = job_text (hd (queue ?S)),
                                       accessToken = ''tk'',
                                       instagramAccountId
                                         = job_instagramAccountId (hd (queue ?S))\<rparr>)]
                \<and> loops s' = [AwaitSend (hd (queue ?S)) True]"
    and q: "queue s' = drop 1 (queue ?S)"
    and pr: "queue ?S \<noteq> [] \<longrightarrow>
                (\<exists>p'. loops s' = [AwaitSend (hd (queue ?S)) p'])
                \<and> processing s' = processing ?S"
    by blast
  have tr': "trace s' = [Failed ?u1, Invoke ?u2,
       Post (sendMessage \<lparr>mp_psid = ''u2'', mp_text = ''yo'', accessToken = ''tk'',
                           instagramAccountId = None\<rparr>)]"
    using tr by simp
  have q': "queue s' = []" using q by simp
  have pr': "processing s'" using pr by simp
  show ?thesis
    by (intro exI [of _ s'])
       (simp add: st tr' q' pr' sendMessage_def baseUrl_def del: step.simps)
qed

end
